theory Spec2Isabelle
  imports Main "HOL-Library.AList"
begin

section \<open>Exceptions, keys and key bundles\<close>

text \<open>
  The exception classes that occur. \<open>key_jar.py\<close> raises \<open>KeyError\<close> (missing url,
  unknown owner) and \<open>ValueError\<close> (not a key bundle, not a JWKS). \<open>TypeError\<close> and
  \<open>ConfigurationError\<close> are classes the specification names; no function below
  returns them.
\<close>

datatype error = KeyError | ValueError | TypeError | ConfigurationError

text \<open>
  Modelled from the spec: the key object of the JOSE library (\<open>cryptojwt\<close> is not among
  the sources). A key has a type, a declared use (empty: any use), an identifier
  (empty: none), a curve name, the time it became inactive (0: active) and its key
  material. Python's \<open>==\<close> and \<open>in\<close> on keys are HOL equality on this record.
\<close>

record Key =
  kty :: string
  use :: string
  kid :: string
  crv :: string
  inactive_since :: int
  material :: string

text \<open>
  Modelled from the spec: the key bundle (\<open>oidcmsg/key_bundle.py\<close> is not among the
  sources): the keys of one source, the source, and the TLS verification flag it was
  built with.
\<close>

record KeyBundle =
  bundle_keys :: "Key list"
  source :: string
  kb_verify_ssl :: bool

text \<open>Modelled from the spec: \<open>KeyBundle.keys()\<close>, enumerate all keys.\<close>

definition kb_keys :: "KeyBundle \<Rightarrow> Key list" where
  "kb_keys kb = bundle_keys kb"

text \<open>Modelled from the spec: \<open>KeyBundle.get(typ)\<close>, enumerate the keys of a given key type.\<close>

definition kb_get :: "KeyBundle \<Rightarrow> string \<Rightarrow> Key list" where
  "kb_get kb typ = filter (\<lambda>key. kty key = typ) (bundle_keys kb)"

text \<open>Modelled from the spec: \<open>len(kb)\<close>, the number of keys of the bundle.\<close>

definition kb_len :: "KeyBundle \<Rightarrow> nat" where
  "kb_len kb = length (bundle_keys kb)"

text \<open>
  Modelled from the spec: \<open>KeyBundle.remove_outdated(after, when)\<close> purges the keys that
  have been inactive longer than the retention window \<open>after\<close> at the time \<open>when\<close>.
  The time is the one the purge works with; reading the clock is left to the caller.
\<close>

definition kb_remove_outdated :: "int \<Rightarrow> int \<Rightarrow> KeyBundle \<Rightarrow> KeyBundle" where
  "kb_remove_outdated after when kb =
     kb\<lparr>bundle_keys :=
          filter (\<lambda>key. \<not> (inactive_since key \<noteq> 0 \<and> inactive_since key + after < when))
            (bundle_keys kb)\<rparr>"

text \<open>
  Modelled from the spec: the two uses of the bundle constructor \<open>keybundle_cls\<close>, with a
  source url (the keys are fetched by the bundle later) and with a literal key list.
\<close>

definition keybundle_cls_source :: "string \<Rightarrow> bool \<Rightarrow> KeyBundle" where
  "keybundle_cls_source url verify = \<lparr>bundle_keys = [], source = url, kb_verify_ssl = verify\<rparr>"

definition keybundle_cls_keys :: "Key list \<Rightarrow> bool \<Rightarrow> KeyBundle" where
  "keybundle_cls_keys ks verify = \<lparr>bundle_keys = ks, source = [], kb_verify_ssl = verify\<rparr>"

text \<open>The key \<open>{"kty": "oct", "k": _key, "use": use}\<close> that \<open>add_symmetric\<close> wraps.\<close>

definition oct_key :: "string \<Rightarrow> string \<Rightarrow> Key" where
  "oct_key secret u =
     \<lparr>kty = ''oct'', use = u, kid = [], crv = [], inactive_since = 0, material = secret\<rparr>"

section \<open>The key jar\<close>

text \<open>
  \<open>issuer_keys\<close> is a Python dict from owner to a list of bundles: an association list
  in insertion order, read with \<open>map_of\<close>, written with \<open>AList.update\<close> (in place for a
  known owner, at the end for a new one) and \<open>AList.delete\<close>. A dict has each owner once:
  \<open>wf_jar\<close>.
\<close>

type_synonym issuer_dict = "(string \<times> KeyBundle list) list"

record KeyJar =
  issuer_keys :: issuer_dict
  ca_certs :: "string option"
  verify_ssl :: bool
  remove_after :: int

definition wf_jar :: "KeyJar \<Rightarrow> bool" where
  "wf_jar self = distinct (map fst (issuer_keys self))"

definition owners :: "KeyJar \<Rightarrow> string list" where
  "owners self = map fst (issuer_keys self)"

text \<open>\<open>__init__\<close> with its default arguments.\<close>

definition KeyJar_init :: KeyJar where
  "KeyJar_init = \<lparr>issuer_keys = [], ca_certs = None, verify_ssl = True, remove_after = 3600\<rparr>"

text \<open>\<open>sub in s\<close> on strings.\<close>

fun is_prefix :: "string \<Rightarrow> string \<Rightarrow> bool" where
  "is_prefix [] s = True"
| "is_prefix (c # cs) [] = False"
| "is_prefix (c # cs) (d # ds) = (c = d \<and> is_prefix cs ds)"

fun contains :: "string \<Rightarrow> string \<Rightarrow> bool" where
  "contains sub [] = (sub = [])"
| "contains sub (c # cs) = (is_prefix sub (c # cs) \<or> contains sub cs)"

text \<open>
  \<open>try: self.issuer_keys[owner].append(kb) except KeyError: self.issuer_keys[owner] = [kb]\<close>,
  the statement shared by \<open>add_url\<close>, \<open>add_kb\<close> and \<open>import_jwks\<close>.
\<close>

definition append_or_create :: "issuer_dict \<Rightarrow> string \<Rightarrow> KeyBundle \<Rightarrow> issuer_dict" where
  "append_or_create d owner kb =
     (case map_of d owner of
        Some kbs \<Rightarrow> AList.update owner (kbs @ [kb]) d
      | None \<Rightarrow> AList.update owner [kb] d)"

text \<open>
  \<open>add_url\<close>: an empty (or absent) url raises \<open>KeyError\<close>; TLS verification is off for a
  localhost url. Every method returns its outcome and the jar afterwards.
\<close>

definition add_url :: "KeyJar \<Rightarrow> string \<Rightarrow> string \<Rightarrow> (error + KeyBundle) \<times> KeyJar" where
  "add_url self owner url =
     (if url = [] then (Inl KeyError, self)
      else
        let kc = (if contains ''/localhost:'' url \<or> contains ''/localhost/'' url
                  then keybundle_cls_source url False
                  else keybundle_cls_source url (verify_ssl self))
        in (Inr kc, self\<lparr>issuer_keys := append_or_create (issuer_keys self) owner kc\<rparr>))"

text \<open>
  \<open>add_symmetric\<close>. \<open>self.issuer_keys[owner].append(...)\<close> raises \<open>KeyError\<close> for an
  unknown owner; the first statement has created the entry. \<open>b64e\<close> is the base64url
  encoder of the JOSE library, a parameter here.
\<close>

definition append_strict :: "issuer_dict \<Rightarrow> string \<Rightarrow> KeyBundle \<Rightarrow> error + issuer_dict" where
  "append_strict d owner kb =
     (case map_of d owner of
        Some kbs \<Rightarrow> Inr (AList.update owner (kbs @ [kb]) d)
      | None \<Rightarrow> Inl KeyError)"

fun add_symmetric_loop ::
  "issuer_dict \<Rightarrow> string \<Rightarrow> string \<Rightarrow> string list \<Rightarrow> (error + unit) \<times> issuer_dict" where
  "add_symmetric_loop d owner k [] = (Inr (), d)"
| "add_symmetric_loop d owner k (u # us) =
     (case append_strict d owner (keybundle_cls_keys [oct_key k u] True) of
        Inl e \<Rightarrow> (Inl e, d)
      | Inr d' \<Rightarrow> add_symmetric_loop d' owner k us)"

definition add_symmetric ::
  "(string \<Rightarrow> string) \<Rightarrow> KeyJar \<Rightarrow> string \<Rightarrow> string \<Rightarrow> string list option
     \<Rightarrow> (error + unit) \<times> KeyJar" where
  "add_symmetric b64e self owner key usage =
     (let d0 = (if map_of (issuer_keys self) owner = None
                then AList.update owner [] (issuer_keys self) else issuer_keys self);
          k = b64e key
      in case usage of
           None \<Rightarrow>
             (case append_strict d0 owner (keybundle_cls_keys [oct_key k []] True) of
                Inl e \<Rightarrow> (Inl e, self\<lparr>issuer_keys := d0\<rparr>)
              | Inr d' \<Rightarrow> (Inr (), self\<lparr>issuer_keys := d'\<rparr>))
         | Some us \<Rightarrow>
             (case add_symmetric_loop d0 owner k us of
                (r, d') \<Rightarrow> (r, self\<lparr>issuer_keys := d'\<rparr>)))"

definition add_kb :: "KeyJar \<Rightarrow> string \<Rightarrow> KeyBundle \<Rightarrow> KeyJar" where
  "add_kb self owner kb = self\<lparr>issuer_keys := append_or_create (issuer_keys self) owner kb\<rparr>"

text \<open>
  \<open>__setitem__\<close>: the value is one object or a list of objects, each a key bundle or
  something else; anything but a list is wrapped in one.
\<close>

datatype pyobj = KB KeyBundle | NotKB

datatype setitem_val = Single pyobj | PyList "pyobj list"

fun check_bundles :: "pyobj list \<Rightarrow> error + KeyBundle list" where
  "check_bundles [] = Inr []"
| "check_bundles (NotKB # rest) = Inl ValueError"
| "check_bundles (KB kb # rest) =
     (case check_bundles rest of Inl e \<Rightarrow> Inl e | Inr kbs \<Rightarrow> Inr (kb # kbs))"

definition as_list :: "setitem_val \<Rightarrow> pyobj list" where
  "as_list val = (case val of PyList l \<Rightarrow> l | Single v \<Rightarrow> [v])"

definition setitem :: "KeyJar \<Rightarrow> string \<Rightarrow> setitem_val \<Rightarrow> (error + unit) \<times> KeyJar" where
  "setitem self owner val =
     (case check_bundles (as_list val) of
        Inl e \<Rightarrow> (Inl e, self)
      | Inr kbs \<Rightarrow> (Inr (), self\<lparr>issuer_keys := AList.update owner kbs (issuer_keys self)\<rparr>))"

text \<open>\<open>import_jwks\<close>: the JWKS is a dict; without the entry \<open>keys\<close> it is no JWKS.\<close>

definition import_jwks ::
  "KeyJar \<Rightarrow> (string \<times> Key list) list \<Rightarrow> string \<Rightarrow> (error + unit) \<times> KeyJar" where
  "import_jwks self jwks issuer =
     (case map_of jwks ''keys'' of
        None \<Rightarrow> (Inl ValueError, self)
      | Some ks \<Rightarrow>
          (Inr (), self\<lparr>issuer_keys :=
             append_or_create (issuer_keys self) issuer (keybundle_cls_keys ks (verify_ssl self))\<rparr>))"

section \<open>Key selection\<close>

definition endswith_slash :: "string \<Rightarrow> bool" where
  "endswith_slash s = (s \<noteq> [] \<and> last s = CHR ''/'')"

text \<open>The first part of \<open>get\<close>: find the owner's bundles, under either form of its name.\<close>

definition resolve_owner :: "issuer_dict \<Rightarrow> string \<Rightarrow> KeyBundle list option" where
  "resolve_owner d owner =
     (if owner \<noteq> [] then
        (case map_of d owner of
           Some kj \<Rightarrow> Some kj
         | None \<Rightarrow>
             if endswith_slash owner then map_of d (butlast owner)
             else map_of d (owner @ ''/''))
      else map_of d owner)"

text \<open>
  The loop over the keys of one bundle, with its \<open>continue\<close> and \<open>break\<close>. \<open>key_use\<close> is
  the argument of \<open>get\<close>, \<open>use'\<close> the use class derived from it, \<open>kid'\<close> the wanted
  identifier (empty or absent: any).
\<close>

fun scan_keys :: "string \<Rightarrow> string \<Rightarrow> string \<Rightarrow> Key list \<Rightarrow> Key list" where
  "scan_keys key_use use' kid' [] = []"
| "scan_keys key_use use' kid' (key # rest) =
     (if inactive_since key \<noteq> 0 \<and> key_use \<noteq> ''sig'' then scan_keys key_use use' kid' rest
      else if use key = [] \<or> use' = use key then
        (if kid' \<noteq> [] then
           (if kid key = kid' then [key] else scan_keys key_use use' kid' rest)
         else key # scan_keys key_use use' kid' rest)
      else scan_keys key_use use' kid' rest)"

definition use_class :: "string \<Rightarrow> string" where
  "use_class key_use = (if key_use = ''dec'' \<or> key_use = ''enc'' then ''enc'' else ''sig'')"

definition bundle_candidates :: "string \<Rightarrow> KeyBundle \<Rightarrow> Key list" where
  "bundle_candidates key_type bundle =
     (if key_type \<noteq> [] then kb_get bundle key_type else kb_keys bundle)"

text \<open>The keys of my own (owner \<open>''''\<close>) that the last part of \<open>get\<close> adds.\<close>

definition own_symmetric :: "string \<Rightarrow> string \<Rightarrow> KeyBundle list \<Rightarrow> Key list" where
  "own_symmetric key_type use' kbs =
     concat (map (\<lambda>kb. filter (\<lambda>key. inactive_since key = 0 \<and> (use key = [] \<or> use key = use'))
                          (kb_get kb key_type)) kbs)"

text \<open>
  \<open>get(key_use, key_type, owner, kid, **kwargs)\<close>; \<open>alg\<close> is the entry \<open>alg\<close> of
  \<open>kwargs\<close>, if there is one.
\<close>

definition get ::
  "KeyJar \<Rightarrow> string \<Rightarrow> string \<Rightarrow> string \<Rightarrow> string \<Rightarrow> string option
     \<Rightarrow> (error + Key list) \<times> KeyJar" where
  "get self key_use key_type owner kid' alg =
     (let use' = use_class key_use in
      case resolve_owner (issuer_keys self) owner of
        None \<Rightarrow> (Inr [], self)
      | Some kj \<Rightarrow>
          let lst = concat (map (\<lambda>bundle. scan_keys key_use use' kid'
                                   (bundle_candidates key_type bundle)) kj);
              lst = (case alg of
                       Some a \<Rightarrow>
                         if key_type = ''EC''
                         then filter (\<lambda>key. ''P-'' @ drop 2 a = crv key) lst else lst
                     | None \<Rightarrow> lst)
          in if use' = ''enc'' \<and> key_type = ''oct'' \<and> owner \<noteq> [] then
               (case map_of (issuer_keys self) [] of
                  None \<Rightarrow> (Inl KeyError, self)
                | Some kbs \<Rightarrow> (Inr (lst @ own_symmetric key_type use' kbs), self))
             else (Inr lst, self))"

definition get_signing_key ::
  "KeyJar \<Rightarrow> string \<Rightarrow> string \<Rightarrow> string \<Rightarrow> string option \<Rightarrow> (error + Key list) \<times> KeyJar" where
  "get_signing_key self key_type owner kid' alg = get self ''sig'' key_type owner kid' alg"

definition get_verify_key ::
  "KeyJar \<Rightarrow> string \<Rightarrow> string \<Rightarrow> string \<Rightarrow> string option \<Rightarrow> (error + Key list) \<times> KeyJar" where
  "get_verify_key self key_type owner kid' alg = get self ''ver'' key_type owner kid' alg"

definition get_encrypt_key ::
  "KeyJar \<Rightarrow> string \<Rightarrow> string \<Rightarrow> string \<Rightarrow> string option \<Rightarrow> (error + Key list) \<times> KeyJar" where
  "get_encrypt_key self key_type owner kid' alg = get self ''enc'' key_type owner kid' alg"

definition get_decrypt_key ::
  "KeyJar \<Rightarrow> string \<Rightarrow> string \<Rightarrow> string \<Rightarrow> string option \<Rightarrow> (error + Key list) \<times> KeyJar" where
  "get_decrypt_key self key_type owner kid' alg = get self ''dec'' key_type owner kid' alg"

text \<open>\<open>get_issuer_keys\<close>: all keys of an owner; an unknown owner raises \<open>KeyError\<close>.\<close>

definition get_issuer_keys :: "KeyJar \<Rightarrow> string \<Rightarrow> error + Key list" where
  "get_issuer_keys self issuer =
     (case map_of (issuer_keys self) issuer of
        None \<Rightarrow> Inl KeyError
      | Some kbl \<Rightarrow> Inr (concat (map kb_keys kbl)))"

text \<open>
  \<open>__eq__\<close> between two key jars: the loop over the owners of \<open>self\<close>, then the method.
\<close>

fun eq_loop :: "KeyJar \<Rightarrow> KeyJar \<Rightarrow> string list \<Rightarrow> error + bool" where
  "eq_loop self other [] = Inr True"
| "eq_loop self other (iss # rest) =
     (case get_issuer_keys self iss of
        Inl e \<Rightarrow> Inl e
      | Inr sk \<Rightarrow>
          (case get_issuer_keys other iss of
             Inl e \<Rightarrow> Inl e
           | Inr ok \<Rightarrow>
               if length sk \<noteq> length ok then Inr False
               else if \<not> list_ex (\<lambda>k. k \<in> set ok) sk then Inr False
               else eq_loop self other rest))"

definition keyjar_eq :: "KeyJar \<Rightarrow> KeyJar \<Rightarrow> error + bool" where
  "keyjar_eq self other =
     (if set (owners self) \<noteq> set (owners other) then Inr False
      else eq_loop self other (owners self))"

text \<open>
  \<open>remove_outdated\<close>: the loop over a snapshot of the owners, then the method. \<open>when\<close> is
  the time handed to the bundles.
\<close>

definition purge_bundles :: "int \<Rightarrow> int \<Rightarrow> KeyBundle list \<Rightarrow> KeyBundle list" where
  "purge_bundles after when kbs =
     filter (\<lambda>kb. kb_len kb \<noteq> 0) (map (kb_remove_outdated after when) kbs)"

fun remove_outdated_loop ::
  "int \<Rightarrow> int \<Rightarrow> string list \<Rightarrow> issuer_dict \<Rightarrow> (error + unit) \<times> issuer_dict" where
  "remove_outdated_loop after when [] d = (Inr (), d)"
| "remove_outdated_loop after when (iss # rest) d =
     (case map_of d iss of
        None \<Rightarrow> (Inl KeyError, d)
      | Some kbs \<Rightarrow>
          let kbl = purge_bundles after when kbs
          in remove_outdated_loop after when rest
               (if kbl \<noteq> [] then AList.update iss kbl d else AList.delete iss d))"

definition remove_outdated :: "KeyJar \<Rightarrow> int \<Rightarrow> (error + unit) \<times> KeyJar" where
  "remove_outdated self when =
     (case remove_outdated_loop (remove_after self) when (owners self) (issuer_keys self) of
        (r, d) \<Rightarrow> (r, self\<lparr>issuer_keys := d\<rparr>))"

text \<open>
  \<open>_add_key\<close>: \<open>keys\<close> are the candidates so far, \<open>no_kid_issuer\<close> the dict from owner to
  the identifiers accepted without a \<open>kid\<close> (an absent dict is the empty one, an absent
  list the empty one). The first loop appends the keys not yet among the candidates.
\<close>

fun append_new :: "Key list \<Rightarrow> Key list \<Rightarrow> Key list" where
  "append_new keys [] = keys"
| "append_new keys (k # ks) = append_new (if k \<notin> set keys then keys @ [k] else keys) ks"

definition add_key ::
  "KeyJar \<Rightarrow> Key list \<Rightarrow> string \<Rightarrow> string \<Rightarrow> string \<Rightarrow> string
     \<Rightarrow> (string \<times> string list) list \<Rightarrow> bool \<Rightarrow> (error + Key list) \<times> KeyJar" where
  "add_key self keys owner use' key_type kid' no_kid_issuer allow_missing_kid =
     (if map_of (issuer_keys self) owner = None then (Inr keys, self)
      else if kid' \<noteq> [] then
        (case get self use' key_type owner kid' None of
           (Inl e, self') \<Rightarrow> (Inl e, self')
         | (Inr found, self') \<Rightarrow> (Inr (append_new keys found), self'))
      else
        (case get self use' key_type owner [] None of
           (Inl KeyError, self') \<Rightarrow> (Inr keys, self')
         | (Inl e, self') \<Rightarrow> (Inl e, self')
         | (Inr kl, self') \<Rightarrow>
             (case kl of
                [] \<Rightarrow> (Inr keys, self')
              | [k0] \<Rightarrow> (Inr (if k0 \<notin> set keys then keys @ [k0] else keys), self')
              | _ \<Rightarrow>
                  if allow_missing_kid then (Inr (keys @ kl), self')
                  else if no_kid_issuer \<noteq> [] then
                    (case map_of no_kid_issuer owner of
                       None \<Rightarrow> (Inr keys, self')
                     | Some allowed_kids \<Rightarrow>
                         if allowed_kids \<noteq> []
                         then (Inr (keys @ filter (\<lambda>k. kid k \<in> set allowed_kids) kl), self')
                         else (Inr (keys @ kl), self'))
                  else (Inr keys, self'))))"

section \<open>What the specification says, and example jars\<close>

text \<open>
  The owner name with its trailing slash toggled, as \<open>get\<close> retries it.
\<close>

definition toggle_slash :: "string \<Rightarrow> string" where
  "toggle_slash owner = (if endswith_slash owner then butlast owner else owner @ ''/'')"

text \<open>
  The invariant of the data model: no owner maps to an empty sequence of bundles.
\<close>

definition no_empty_entry :: "KeyJar \<Rightarrow> bool" where
  "no_empty_entry self = ([] \<notin> set (map snd (issuer_keys self)))"

text \<open>
  Equality as the specification words it: the same set of owners and, for every owner,
  the same number of keys and at least one key in common. \<open>owner_keys\<close> are the keys a
  jar holds for an owner (none for an unknown owner).
\<close>

definition owner_keys :: "KeyJar \<Rightarrow> string \<Rightarrow> Key list" where
  "owner_keys self iss =
     (case map_of (issuer_keys self) iss of
        None \<Rightarrow> []
      | Some kbl \<Rightarrow> concat (map kb_keys kbl))"

definition owner_agrees :: "KeyJar \<Rightarrow> KeyJar \<Rightarrow> string \<Rightarrow> bool" where
  "owner_agrees a b iss =
     (length (owner_keys a iss) = length (owner_keys b iss)
      \<and> set (owner_keys a iss) \<inter> set (owner_keys b iss) \<noteq> {})"

definition eq_spec :: "KeyJar \<Rightarrow> KeyJar \<Rightarrow> bool" where
  "eq_spec a b = (set (owners a) = set (owners b) \<and> list_all (owner_agrees a b) (owners a))"

text \<open>
  The dict that \<open>remove_outdated\<close> leaves: every owner's bundles purged, in the old
  order, without the owners that keep no bundle.
\<close>

fun purged :: "int \<Rightarrow> int \<Rightarrow> issuer_dict \<Rightarrow> issuer_dict" where
  "purged after when [] = []"
| "purged after when ((iss, kbs) # d) =
     (if purge_bundles after when kbs \<noteq> []
      then (iss, purge_bundles after when kbs) # purged after when d
      else purged after when d)"

text \<open>Keys and jars to run the functions on.\<close>

definition active_key :: Key where
  "active_key =
     \<lparr>kty = ''RSA'', use = ''sig'', kid = ''k2'', crv = [], inactive_since = 0,
      material = ''n2''\<rparr>"

definition retired_key :: Key where
  "retired_key =
     \<lparr>kty = ''RSA'', use = ''sig'', kid = ''k1'', crv = [], inactive_since = 1,
      material = ''n1''\<rparr>"

definition nokid_key :: "string \<Rightarrow> Key" where
  "nokid_key m =
     \<lparr>kty = ''RSA'', use = ''sig'', kid = [], crv = [], inactive_since = 0, material = m\<rparr>"

definition jar_of :: "issuer_dict \<Rightarrow> KeyJar" where
  "jar_of d = KeyJar_init\<lparr>issuer_keys := d\<rparr>"

definition retired_jar :: KeyJar where
  "retired_jar = jar_of [([], [keybundle_cls_keys [retired_key] True])]"

definition idp_jar :: KeyJar where
  "idp_jar = jar_of [(''https://idp/'', [keybundle_cls_keys [active_key] True])]"

definition both_forms_jar :: KeyJar where
  "both_forms_jar =
     jar_of [(''a'', [keybundle_cls_keys [active_key] True]),
             (''a/'', [keybundle_cls_keys [retired_key] True])]"

definition two_key_jar :: KeyJar where
  "two_key_jar = jar_of [(''rp'', [keybundle_cls_keys [nokid_key ''x'', nokid_key ''y''] True])]"

definition rotation_jar :: KeyJar where
  "rotation_jar =
     jar_of [(''old'', [keybundle_cls_keys [retired_key] True]),
             (''cur'', [keybundle_cls_keys [retired_key, active_key] True])]"

definition first_jar :: KeyJar where
  "first_jar = jar_of [(''a'', [keybundle_cls_keys [active_key] True])]"

definition second_jar :: KeyJar where
  "second_jar = jar_of [(''a'', [keybundle_cls_keys [retired_key] True])]"

section \<open>Evaluation\<close>

lemmas example_defs =
  jar_of_def KeyJar_init_def keybundle_cls_keys_def active_key_def retired_key_def nokid_key_def

lemmas get_defs =
  get_def Let_def resolve_owner_def use_class_def bundle_candidates_def kb_get_def kb_keys_def
  endswith_slash_def own_symmetric_def

section \<open>Lookups\<close>

lemma snd_get: "snd (get self key_use key_type owner kid' alg) = self"
  by (simp add: get_def Let_def split: option.splits)

lemma get_pair: "get self key_use key_type owner kid' alg =
    (fst (get self key_use key_type owner kid' alg), self)"
  by (simp add: prod_eq_iff snd_get)

text \<open>
  C9: whatever the usage, key type, owner, kid and algorithm, \<open>get\<close> hands back the jar
  it was given: the owner-to-bundles mapping (and every other field) is unchanged, also
  when the lookup raises.
\<close>

theorem get_leaves_jar_unchanged:
  "snd (get self key_use key_type owner kid' alg) = self"
  by (rule snd_get)

theorem get_leaves_jar_unchanged_witness:
  "snd (get idp_jar ''enc'' ''oct'' ''https://idp'' [] None) = idp_jar
   \<and> fst (get idp_jar ''enc'' ''oct'' ''https://idp'' [] None) = Inl KeyError"
  using get_leaves_jar_unchanged [of idp_jar "''enc''" "''oct''" "''https://idp''" "[]" None]
  by (simp add: get_defs idp_jar_def example_defs)

text \<open>
  What the scan of a bundle does with inactive keys: it lets one through only when the
  argument \<open>key_use\<close> is \<open>''sig''\<close>.
\<close>

lemma scan_keys_inactive:
  "key \<in> set (scan_keys key_use use' kid' ks) \<Longrightarrow> inactive_since key \<noteq> 0 \<Longrightarrow> key_use = ''sig''"
  by (induction ks) (auto split: if_splits)

lemma scan_keys_subset: "set (scan_keys key_use use' kid' ks) \<subseteq> set ks"
  by (induction ks) (auto split: if_splits)

text \<open>
  C1: the test that skips an inactive key compares the argument \<open>key_use\<close> with
  \<open>''sig''\<close>. So a lookup for verification (\<open>''ver''\<close>, as \<open>get_verify_key\<close> asks)
  skips the retired key, and a lookup for signing (\<open>''sig''\<close>, as \<open>get_signing_key\<close>
  asks) returns it: the reverse of what the comment in the code and the specification
  say. The jar holds one retired signing key under the owner \<open>''''\<close>.
\<close>

theorem get_inactive_key_by_usage:
  "fst (get_verify_key retired_jar ''RSA'' [] [] None) = Inr []
   \<and> fst (get_signing_key retired_jar ''RSA'' [] [] None) = Inr [retired_key]
   \<and> inactive_since retired_key \<noteq> 0"
  by (simp add: get_verify_key_def get_signing_key_def get_defs retired_jar_def example_defs)

section \<open>Errors of the mutating methods\<close>

text \<open>
  C8 as the code has it: \<open>add_url\<close> with an empty url raises \<open>KeyError\<close>, the class an
  unknown owner raises too, and leaves the jar as it was.
\<close>

theorem add_url_empty_url:
  "add_url self owner [] = (Inl KeyError, self)"
  by (simp add: add_url_def)

theorem add_url_empty_url_witness:
  "add_url idp_jar ''https://idp/'' [] = (Inl KeyError, idp_jar)"
  by (rule add_url_empty_url)

text \<open>
  With a configuration error in place of the \<open>KeyError\<close> the property fails: that is not
  the error of an empty url.
\<close>

theorem add_url_empty_url_counterexample:
  "fst (add_url idp_jar ''https://idp/'' []) \<noteq> Inl ConfigurationError"
  by (simp add: add_url_def)

lemma check_bundles_NotKB: "NotKB \<in> set xs \<Longrightarrow> check_bundles xs = Inl ValueError"
  by (induction xs rule: check_bundles.induct) auto

text \<open>
  C7 as the code has it: when some element of the value is not a key bundle,
  \<open>__setitem__\<close> raises \<open>ValueError\<close> and the jar, the owner's previous bundles with
  it, is unchanged.
\<close>

theorem setitem_not_a_bundle:
  "NotKB \<in> set (as_list val) \<Longrightarrow> setitem self owner val = (Inl ValueError, self)"
  by (simp add: setitem_def check_bundles_NotKB)

theorem setitem_not_a_bundle_witness:
  "NotKB \<in> set (as_list (PyList [KB (keybundle_cls_keys [active_key] True), NotKB]))
   \<and> setitem idp_jar ''https://idp/'' (PyList [KB (keybundle_cls_keys [active_key] True), NotKB])
       = (Inl ValueError, idp_jar)"
  using setitem_not_a_bundle
    [of "PyList [KB (keybundle_cls_keys [active_key] True), NotKB]" idp_jar "''https://idp/''"]
  by (simp add: as_list_def)

text \<open>
  With a type error in place of the \<open>ValueError\<close> the property fails: that is not the
  error of a value that is no key bundle.
\<close>

theorem setitem_not_a_bundle_counterexample:
  "fst (setitem idp_jar ''https://idp/'' (Single NotKB)) \<noteq> Inl TypeError"
  by (simp add: setitem_def as_list_def)

section \<open>The owner with and without a trailing slash\<close>

lemma resolve_owner_absent:
  "owner \<noteq> [] \<Longrightarrow> map_of d owner = None \<Longrightarrow>
   resolve_owner d owner = map_of d (toggle_slash owner)"
  by (simp add: resolve_owner_def toggle_slash_def)

lemma resolve_owner_present:
  "map_of d owner = Some kbs \<Longrightarrow> resolve_owner d owner = Some kbs"
  by (auto simp: resolve_owner_def)

lemma resolve_owner_slash:
  assumes "owner \<noteq> []" "\<not> endswith_slash owner"
    and "map_of d owner = None \<or> map_of d (owner @ ''/'') = None"
  shows "resolve_owner d (owner @ ''/'') = resolve_owner d owner"
  using assms by (auto simp: resolve_owner_def endswith_slash_def split: option.splits)

text \<open>
  C5 as the code has it: for a non-empty owner name without a trailing slash, when the
  jar does not hold entries under both forms of the name, \<open>get\<close> returns the same with
  and without the slash. And for every non-empty owner absent from the jar, the lookup
  goes on with the name whose trailing slash is toggled.
\<close>

theorem get_slash_forms:
  assumes "owner \<noteq> []" and "\<not> endswith_slash owner"
    and "map_of (issuer_keys self) owner = None
         \<or> map_of (issuer_keys self) (owner @ ''/'') = None"
  shows "get self key_use key_type (owner @ ''/'') kid' alg
           = get self key_use key_type owner kid' alg
       \<and> (map_of (issuer_keys self) owner = None \<longrightarrow>
            resolve_owner (issuer_keys self) owner
              = map_of (issuer_keys self) (toggle_slash owner))"
  using assms(1)
  by (simp add: get_def Let_def resolve_owner_slash [OF assms] resolve_owner_absent
      split: option.splits)

theorem get_slash_forms_witness:
  "''https://idp'' \<noteq> [] \<and> \<not> endswith_slash ''https://idp''
   \<and> map_of (issuer_keys idp_jar) ''https://idp'' = None
   \<and> get idp_jar ''ver'' ''RSA'' (''https://idp'' @ ''/'') [] None
       = get idp_jar ''ver'' ''RSA'' ''https://idp'' [] None
   \<and> get idp_jar ''ver'' ''RSA'' ''https://idp'' [] None = (Inr [active_key], idp_jar)"
  using get_slash_forms [of "''https://idp''" idp_jar "''ver''" "''RSA''" "[]" None]
  by (simp add: get_defs idp_jar_def example_defs)

text \<open>
  Without the condition on the two forms the property fails: a jar with entries under both \<open>''a''\<close> and \<open>''a/''\<close> answers each
  name with its own entry.
\<close>

theorem get_slash_forms_counterexample:
  "fst (get both_forms_jar ''sig'' [] ''a'' [] None) = Inr [active_key]
   \<and> fst (get both_forms_jar ''sig'' [] ''a/'' [] None) = Inr [retired_key]
   \<and> active_key \<noteq> retired_key"
  by (simp add: get_defs both_forms_jar_def example_defs scan_keys.simps)

section \<open>The merge of my own symmetric keys\<close>

text \<open>
  C10 as the code has it: in a jar without an entry for the owner \<open>''''\<close>, a lookup of
  the encryption class for key type \<open>oct\<close> and a non-empty owner raises \<open>KeyError\<close>
  when the owner is found under either form of its name; when it is not found, the lookup
  has returned the empty list before it reaches the merge.
\<close>

theorem get_own_symmetric_unguarded:
  assumes "key_use = ''enc'' \<or> key_use = ''dec''" and "owner \<noteq> []"
    and "map_of (issuer_keys self) [] = None"
  shows "fst (get self key_use ''oct'' owner kid' alg) =
     (if map_of (issuer_keys self) owner = None
         \<and> map_of (issuer_keys self) (toggle_slash owner) = None
      then Inr [] else Inl KeyError)"
proof (cases "map_of (issuer_keys self) owner")
  case None
  then show ?thesis using assms
    by (auto simp: get_def Let_def use_class_def resolve_owner_absent split: option.splits)
next
  case (Some kbs)
  then show ?thesis using assms
    by (auto simp: get_def Let_def use_class_def resolve_owner_present split: option.splits)
qed

theorem get_own_symmetric_unguarded_witness:
  "map_of (issuer_keys idp_jar) [] = None
   \<and> fst (get idp_jar ''dec'' ''oct'' ''https://idp/'' ''k2'' None) = Inl KeyError
   \<and> fst (get idp_jar ''enc'' ''oct'' ''https://other'' ''k2'' None) = Inr []"
  using get_own_symmetric_unguarded [of "''dec''" "''https://idp/''" idp_jar "''k2''" None]
    get_own_symmetric_unguarded [of "''enc''" "''https://other''" idp_jar "''k2''" None]
  by (simp add: idp_jar_def example_defs toggle_slash_def endswith_slash_def)

text \<open>
  Without the condition that the owner is found the property fails: the empty jar has no entry for \<open>''''\<close>, and the lookup for an
  unknown owner returns the empty list.
\<close>

theorem get_own_symmetric_unguarded_counterexample:
  "map_of (issuer_keys KeyJar_init) [] = None
   \<and> fst (get KeyJar_init ''enc'' ''oct'' ''https://idp/'' [] None) = Inr []"
  by (simp add: get_defs KeyJar_init_def)

section \<open>Candidates for a token without a kid\<close>

lemma add_key_no_kid:
  assumes "get self use' key_type owner [] None = (Inr kl, self)" and "1 < length kl"
    and "map_of (issuer_keys self) owner \<noteq> None"
  shows "add_key self keys owner use' key_type [] nki allow =
    (if allow then (Inr (keys @ kl), self)
     else case map_of nki owner of
            None \<Rightarrow> (Inr keys, self)
          | Some allowed \<Rightarrow>
              if allowed \<noteq> [] then (Inr (keys @ filter (\<lambda>k. kid k \<in> set allowed) kl), self)
              else (Inr (keys @ kl), self))"
proof -
  obtain a b rest where kl: "kl = a # b # rest"
    using assms(2) by (cases kl; cases "tl kl") auto
  show ?thesis
    using assms(1,3) unfolding kl add_key_def
    by (cases nki) (auto split: option.splits)
qed

text \<open>
  C2: the token has no kid and the lookup for the owner yields more than one key. Then
  \<open>_add_key\<close> returns the candidates as they were unless \<open>allow_missing_kid\<close> is set or
  the owner has an entry in \<open>no_kid_issuer\<close>. For an owner of the jar, \<open>allow_missing_kid\<close>
  admits all the keys found; otherwise an entry of the owner admits the keys whose kid it
  lists, or all of them when it lists none.
\<close>

theorem add_key_ambiguous_without_kid:
  assumes "fst (get self use' key_type owner [] None) = Inr kl" and "1 < length kl"
  shows "(\<not> allow_missing_kid \<and> map_of no_kid_issuer owner = None \<longrightarrow>
            add_key self keys owner use' key_type [] no_kid_issuer allow_missing_kid
              = (Inr keys, self))
       \<and> (map_of (issuer_keys self) owner \<noteq> None \<and> allow_missing_kid \<longrightarrow>
            add_key self keys owner use' key_type [] no_kid_issuer allow_missing_kid
              = (Inr (keys @ kl), self))
       \<and> (map_of (issuer_keys self) owner \<noteq> None \<and> \<not> allow_missing_kid
            \<and> map_of no_kid_issuer owner = Some allowed \<longrightarrow>
            add_key self keys owner use' key_type [] no_kid_issuer allow_missing_kid
              = (Inr (keys @ (if allowed = [] then kl
                              else filter (\<lambda>k. kid k \<in> set allowed) kl)), self))"
proof (cases "map_of (issuer_keys self) owner")
  case None
  then show ?thesis by (simp add: add_key_def)
next
  case (Some kbs)
  have "get self use' key_type owner [] None = (Inr kl, self)"
    using assms(1) get_pair [of self use' key_type owner "[]" None] by simp
  from add_key_no_kid [OF this assms(2), of keys no_kid_issuer allow_missing_kid] Some
  show ?thesis by (cases allow_missing_kid) auto
qed

theorem add_key_ambiguous_without_kid_witness:
  "fst (get two_key_jar ''sig'' ''RSA'' ''rp'' [] None) = Inr [nokid_key ''x'', nokid_key ''y'']
   \<and> 1 < length [nokid_key ''x'', nokid_key ''y'']
   \<and> add_key two_key_jar [] ''rp'' ''sig'' ''RSA'' [] [] False = (Inr [], two_key_jar)
   \<and> add_key two_key_jar [] ''rp'' ''sig'' ''RSA'' [] [] True
       = (Inr [nokid_key ''x'', nokid_key ''y''], two_key_jar)
   \<and> add_key two_key_jar [] ''rp'' ''sig'' ''RSA'' [] [(''rp'', [])] False
       = (Inr [nokid_key ''x'', nokid_key ''y''], two_key_jar)
   \<and> add_key two_key_jar [] ''rp'' ''sig'' ''RSA'' [] [(''rp'', [''k9''])] False
       = (Inr [], two_key_jar)"
proof -
  have g: "fst (get two_key_jar ''sig'' ''RSA'' ''rp'' [] None)
             = Inr [nokid_key ''x'', nokid_key ''y'']"
    by (simp add: get_defs two_key_jar_def example_defs)
  have l: "1 < length [nokid_key ''x'', nokid_key ''y'']" by simp
  have k: "map_of (issuer_keys two_key_jar) ''rp'' \<noteq> None"
    by (simp add: two_key_jar_def example_defs)
  have n: "kid (nokid_key ''x'') = []" "kid (nokid_key ''y'') = []"
    by (simp_all add: nokid_key_def)
  show ?thesis
    using g l k n
      add_key_ambiguous_without_kid [OF g l, of False "[]" "[]"]
      add_key_ambiguous_without_kid [OF g l, of True "[]" "[]"]
      add_key_ambiguous_without_kid [OF g l, of False "[(''rp'', [])]" "[]" "[]"]
      add_key_ambiguous_without_kid [OF g l, of False "[(''rp'', [''k9''])]" "[]" "[''k9'']"]
    by simp
qed

section \<open>Equality of key jars\<close>

lemma get_issuer_keys_known:
  "iss \<in> set (owners self) \<Longrightarrow> get_issuer_keys self iss = Inr (owner_keys self iss)"
  by (auto simp: owners_def get_issuer_keys_def owner_keys_def map_of_eq_None_iff
      split: option.splits)

lemma eq_loop_known:
  assumes "set os \<subseteq> set (owners self)" "set os \<subseteq> set (owners other)"
  shows "eq_loop self other os = Inr (list_all (owner_agrees self other) os)"
  using assms
proof (induction os)
  case Nil
  then show ?case by simp
next
  case (Cons iss os)
  then have "get_issuer_keys self iss = Inr (owner_keys self iss)"
    "get_issuer_keys other iss = Inr (owner_keys other iss)"
    by (simp_all add: get_issuer_keys_known)
  with Cons show ?case
    by (auto simp: owner_agrees_def list_ex_iff)
qed

lemma keyjar_eq_spec: "keyjar_eq a b = Inr (eq_spec a b)"
  by (simp add: keyjar_eq_def eq_spec_def eq_loop_known)

text \<open>
  C4: \<open>__eq__\<close> never raises, and it answers what the specification says: the two jars
  have the same set of owners and, for every owner, as many keys and a key in common. In
  particular two jars that hold one owner with one key each, and not the same key, are
  unequal.
\<close>

theorem keyjar_eq_weak:
  "keyjar_eq a b = Inr (eq_spec a b)
   \<and> (issuer_keys a = [(iss, [kba])] \<and> issuer_keys b = [(iss, [kbb])]
        \<and> bundle_keys kba = [k1] \<and> bundle_keys kbb = [k2] \<and> k1 \<noteq> k2
      \<longrightarrow> keyjar_eq a b = Inr False)"
  by (auto simp: keyjar_eq_spec eq_spec_def owner_agrees_def owner_keys_def owners_def
      kb_keys_def)

theorem keyjar_eq_weak_witness:
  "keyjar_eq first_jar second_jar = Inr False
   \<and> keyjar_eq first_jar first_jar = Inr True
   \<and> issuer_keys first_jar = [(''a'', [keybundle_cls_keys [active_key] True])]
   \<and> issuer_keys second_jar = [(''a'', [keybundle_cls_keys [retired_key] True])]
   \<and> active_key \<noteq> retired_key"
  using keyjar_eq_weak [of first_jar second_jar "''a''" "keybundle_cls_keys [active_key] True"
      "keybundle_cls_keys [retired_key] True" active_key retired_key]
    keyjar_eq_weak [of first_jar first_jar "''a''" "keybundle_cls_keys [active_key] True"
      "keybundle_cls_keys [active_key] True" active_key active_key]
  by (simp add: first_jar_def second_jar_def example_defs eq_spec_def owner_agrees_def
      owner_keys_def owners_def kb_keys_def)

section \<open>Purging outdated keys\<close>

lemma kb_remove_outdated_idem:
  "kb_remove_outdated after when (kb_remove_outdated after when kb)
     = kb_remove_outdated after when kb"
  by (simp add: kb_remove_outdated_def)

lemma purge_bundles_idem:
  "purge_bundles after when (purge_bundles after when kbs) = purge_bundles after when kbs"
  by (induction kbs) (auto simp: purge_bundles_def kb_remove_outdated_idem)

lemma update_middle:
  "k \<notin> fst ` set xs \<Longrightarrow> AList.update k v (xs @ (k, w) # ys) = xs @ (k, v) # ys"
  by (induction xs) auto

lemma delete_middle:
  "k \<notin> fst ` set xs \<Longrightarrow> k \<notin> fst ` set ys \<Longrightarrow> AList.delete k (xs @ (k, w) # ys) = xs @ ys"
  by (induction xs) auto

lemma map_of_middle:
  "k \<notin> fst ` set xs \<Longrightarrow> map_of (xs @ (k, w) # ys) k = Some w"
  by (induction xs) auto

text \<open>
  The loop, started on the owners \<open>ys\<close> still to visit with the part \<open>xs\<close> already
  done: it never meets an unknown owner, and it leaves \<open>purged\<close> of the rest.
\<close>

lemma remove_outdated_loop_purged:
  "distinct (map fst (xs @ ys)) \<Longrightarrow>
   remove_outdated_loop after when (map fst ys) (xs @ ys) = (Inr (), xs @ purged after when ys)"
proof (induction ys arbitrary: xs)
  case Nil
  then show ?case by simp
next
  case (Cons p ys)
  obtain iss kbs where p: "p = (iss, kbs)" by (cases p)
  from Cons.prems have nx: "iss \<notin> fst ` set xs" and ny: "iss \<notin> fst ` set ys"
    by (auto simp: p)
  show ?case
  proof (cases "purge_bundles after when kbs = []")
    case True
    from Cons.prems have "distinct (map fst (xs @ ys))" by (simp add: p)
    from Cons.IH [OF this] True show ?thesis
      by (simp add: p map_of_middle [OF nx] delete_middle [OF nx ny] del: map_of_append)
  next
    case False
    from Cons.prems have "distinct (map fst ((xs @ [(iss, purge_bundles after when kbs)]) @ ys))"
      by (simp add: p)
    from Cons.IH [OF this] False show ?thesis
      by (simp add: p map_of_middle [OF nx] update_middle [OF nx] del: map_of_append)
  qed
qed

lemma fst_purged: "fst ` set (purged after when d) \<subseteq> fst ` set d"
  by (induction d rule: purged.induct) auto

lemma distinct_purged: "distinct (map fst d) \<Longrightarrow> distinct (map fst (purged after when d))"
proof (induction d)
  case Nil
  then show ?case by simp
next
  case (Cons p d)
  obtain iss kbs where p: "p = (iss, kbs)" by (cases p)
  from Cons.prems have "iss \<notin> fst ` set d" by (simp add: p)
  with fst_purged [of after "when" d] have "iss \<notin> fst ` set (purged after when d)" by blast
  with Cons show ?case by (simp add: p)
qed

lemma purged_idem: "purged after when (purged after when d) = purged after when d"
  by (induction d rule: purged.induct) (auto simp: purge_bundles_idem)

lemma purged_nonempty: "[] \<notin> snd ` set (purged after when d)"
  by (induction d rule: purged.induct) auto

lemma remove_outdated_purged:
  "wf_jar self \<Longrightarrow> remove_outdated self when =
     (Inr (), self\<lparr>issuer_keys := purged (remove_after self) when (issuer_keys self)\<rparr>)"
  using remove_outdated_loop_purged [of "[]" "issuer_keys self"]
  by (simp add: remove_outdated_def wf_jar_def owners_def)

lemma wf_jar_purged:
  "wf_jar self \<Longrightarrow> wf_jar (self\<lparr>issuer_keys := purged after when (issuer_keys self)\<rparr>)"
  by (simp add: wf_jar_def distinct_purged)

lemma distinct_append_or_create:
  "distinct (map fst d) \<Longrightarrow> distinct (map fst (append_or_create d owner kb))"
  by (simp add: append_or_create_def distinct_update split: option.splits)

lemma distinct_add_symmetric_loop:
  "distinct (map fst d) \<Longrightarrow> distinct (map fst (snd (add_symmetric_loop d owner k us)))"
proof (induction us arbitrary: d)
  case Nil
  then show ?case by simp
next
  case (Cons u us)
  then show ?case
    by (cases "map_of d owner") (simp_all add: append_strict_def distinct_update)
qed

text \<open>
  Every jar the methods build is a dict: the empty jar is one, and each mutating method
  keeps the owners distinct.
\<close>

lemma wf_jar_kept:
  "wf_jar KeyJar_init"
  "wf_jar self \<Longrightarrow> wf_jar (snd (add_url self owner url))"
  "wf_jar self \<Longrightarrow> wf_jar (add_kb self owner kb)"
  "wf_jar self \<Longrightarrow> wf_jar (snd (import_jwks self jwks owner))"
  "wf_jar self \<Longrightarrow> wf_jar (snd (setitem self owner val))"
  "wf_jar self \<Longrightarrow> wf_jar (snd (add_symmetric b64e self owner key usage))"
  "wf_jar self \<Longrightarrow> wf_jar (snd (remove_outdated self when))"
proof -
  show "wf_jar KeyJar_init" by (simp add: wf_jar_def KeyJar_init_def)
  show "wf_jar self \<Longrightarrow> wf_jar (snd (add_url self owner url))"
    by (simp add: wf_jar_def add_url_def Let_def distinct_append_or_create)
  show "wf_jar self \<Longrightarrow> wf_jar (add_kb self owner kb)"
    by (simp add: wf_jar_def add_kb_def distinct_append_or_create)
  show "wf_jar self \<Longrightarrow> wf_jar (snd (import_jwks self jwks owner))"
    by (simp add: wf_jar_def import_jwks_def distinct_append_or_create split: option.splits)
  show "wf_jar self \<Longrightarrow> wf_jar (snd (setitem self owner val))"
    by (simp add: wf_jar_def setitem_def distinct_update split: sum.splits)
  show "wf_jar self \<Longrightarrow> wf_jar (snd (add_symmetric b64e self owner key usage))"
    using distinct_add_symmetric_loop [of "issuer_keys self" owner "b64e key"]
      distinct_add_symmetric_loop [of "AList.update owner [] (issuer_keys self)" owner "b64e key"]
    by (auto simp: wf_jar_def add_symmetric_def Let_def append_strict_def distinct_update
        case_prod_beta split: option.splits)
  show "wf_jar self \<Longrightarrow> wf_jar (snd (remove_outdated self when))"
    by (simp add: remove_outdated_purged wf_jar_purged)
qed

text \<open>
  C6: on a jar (a dict: every owner once), \<open>remove_outdated\<close> returns normally, and
  calling it again with the same \<open>when\<close> on the jar it left returns normally too and
  leaves that jar as it is.
\<close>

theorem remove_outdated_idempotent:
  assumes "wf_jar self"
  shows "fst (remove_outdated self when) = Inr ()
       \<and> remove_outdated (snd (remove_outdated self when)) when = remove_outdated self when"
proof -
  let ?s = "self\<lparr>issuer_keys := purged (remove_after self) when (issuer_keys self)\<rparr>"
  have "wf_jar ?s" using assms by (rule wf_jar_purged)
  from remove_outdated_purged [OF this] remove_outdated_purged [OF assms]
  show ?thesis by (simp add: purged_idem)
qed

theorem remove_outdated_idempotent_witness:
  "wf_jar rotation_jar
   \<and> fst (remove_outdated rotation_jar 5000) = Inr ()
   \<and> remove_outdated (snd (remove_outdated rotation_jar 5000)) 5000
       = remove_outdated rotation_jar 5000
   \<and> issuer_keys (snd (remove_outdated rotation_jar 5000))
       = [(''cur'', [keybundle_cls_keys [active_key] True])]"
  using remove_outdated_idempotent [of rotation_jar 5000]
  by (simp add: wf_jar_def rotation_jar_def example_defs remove_outdated_def owners_def
      purge_bundles_def kb_remove_outdated_def kb_len_def)

section \<open>Owners without bundles\<close>

lemma snd_update: "snd ` set (AList.update k v d) \<subseteq> insert v (snd ` set d)"
  by (induction d) auto

lemma update_nonempty_values:
  "[] \<notin> snd ` set d \<Longrightarrow> v \<noteq> [] \<Longrightarrow> [] \<notin> snd ` set (AList.update k v d)"
  using snd_update [of k v d] by auto

lemma append_or_create_nonempty:
  "[] \<notin> snd ` set d \<Longrightarrow> [] \<notin> snd ` set (append_or_create d owner kb)"
  by (simp add: append_or_create_def update_nonempty_values split: option.splits)

lemma add_symmetric_loop_known:
  "map_of d owner \<noteq> None \<Longrightarrow> [] \<notin> snd ` set d \<Longrightarrow>
   fst (add_symmetric_loop d owner k us) = Inr ()
   \<and> [] \<notin> snd ` set (snd (add_symmetric_loop d owner k us))"
proof (induction us arbitrary: d)
  case Nil
  then show ?case by simp
next
  case (Cons u us)
  then obtain kbs where kbs: "map_of d owner = Some kbs" by auto
  let ?d = "AList.update owner (kbs @ [keybundle_cls_keys [oct_key k u] True]) d"
  have "map_of ?d owner \<noteq> None" by (simp add: update_conv')
  moreover have "[] \<notin> snd ` set ?d" using Cons.prems(2) by (simp add: update_nonempty_values)
  ultimately show ?case using Cons.IH [of ?d] by (simp add: append_strict_def kbs)
qed

lemma add_symmetric_loop_new:
  assumes "map_of d owner = None" "[] \<notin> snd ` set d" "us \<noteq> []"
  shows "fst (add_symmetric_loop (AList.update owner [] d) owner k us) = Inr ()
       \<and> [] \<notin> snd ` set (snd (add_symmetric_loop (AList.update owner [] d) owner k us))"
proof -
  obtain u us' where us: "us = u # us'" using assms(3) by (cases us) auto
  let ?d = "AList.update owner [keybundle_cls_keys [oct_key k u] True] d"
  have "map_of ?d owner \<noteq> None" by (simp add: update_conv')
  moreover have "[] \<notin> snd ` set ?d" using assms(2) by (simp add: update_nonempty_values)
  ultimately show ?thesis using add_symmetric_loop_known [of ?d owner k us']
    by (simp add: us append_strict_def update_conv')
qed

lemma add_symmetric_nonempty:
  assumes "no_empty_entry self" "usage \<noteq> Some []"
  shows "fst (add_symmetric b64e self owner key usage) = Inr ()
       \<and> no_empty_entry (snd (add_symmetric b64e self owner key usage))"
proof (cases "map_of (issuer_keys self) owner")
  case None
  show ?thesis
  proof (cases usage)
    case n: None
    then show ?thesis using None assms(1)
      by (simp add: add_symmetric_def no_empty_entry_def append_strict_def update_conv'
          update_nonempty_values)
  next
    case (Some us)
    then have "us \<noteq> []" using assms(2) by simp
    from add_symmetric_loop_new [OF None _ this, of "b64e key"] assms(1) Some None show ?thesis
      by (simp add: add_symmetric_def no_empty_entry_def case_prod_beta)
  qed
next
  case (Some kbs)
  show ?thesis
  proof (cases usage)
    case None
    then show ?thesis using Some assms(1)
      by (simp add: add_symmetric_def no_empty_entry_def append_strict_def update_nonempty_values)
  next
    case s: (Some us)
    from add_symmetric_loop_known [of "issuer_keys self" owner "b64e key" us] assms(1) Some s
    show ?thesis
      by (simp add: add_symmetric_def no_empty_entry_def case_prod_beta)
  qed
qed

lemma check_bundles_length: "check_bundles xs = Inr kbs \<Longrightarrow> length kbs = length xs"
  by (induction xs arbitrary: kbs rule: check_bundles.induct) (auto split: sum.splits)

lemma setitem_nonempty:
  assumes "no_empty_entry self" "as_list val \<noteq> []"
  shows "no_empty_entry (snd (setitem self owner val))"
proof (cases "check_bundles (as_list val)")
  case (Inl e)
  then show ?thesis using assms(1) by (simp add: setitem_def)
next
  case (Inr kbs)
  with check_bundles_length assms(2) have "kbs \<noteq> []" by fastforce
  with Inr assms(1) show ?thesis
    by (simp add: setitem_def no_empty_entry_def update_nonempty_values)
qed

lemma remove_outdated_nonempty:
  "wf_jar self \<Longrightarrow> no_empty_entry (snd (remove_outdated self when))"
  by (simp add: remove_outdated_purged no_empty_entry_def purged_nonempty)

text \<open>
  C3 as the code has it: \<open>remove_outdated\<close> leaves no owner with an empty sequence of
  bundles, whatever the jar held before. In a jar without such an owner, \<open>add_url\<close>,
  \<open>add_kb\<close> and \<open>import_jwks\<close> leave none, \<open>add_symmetric\<close> leaves none when its usage
  is absent or a non-empty list, and \<open>__setitem__\<close> leaves none when the value is not the
  empty list.
\<close>

theorem mutations_keep_owners_nonempty:
  "(wf_jar self \<longrightarrow> no_empty_entry (snd (remove_outdated self when)))
   \<and> (no_empty_entry self \<longrightarrow>
        no_empty_entry (snd (add_url self owner url))
        \<and> no_empty_entry (add_kb self owner kb)
        \<and> no_empty_entry (snd (import_jwks self jwks owner))
        \<and> (usage \<noteq> Some [] \<longrightarrow> no_empty_entry (snd (add_symmetric b64e self owner key usage)))
        \<and> (as_list val \<noteq> [] \<longrightarrow> no_empty_entry (snd (setitem self owner val))))"
proof -
  have "no_empty_entry (snd (add_url self owner url))" if "no_empty_entry self"
    using that by (simp add: add_url_def Let_def no_empty_entry_def append_or_create_nonempty)
  moreover have "no_empty_entry (add_kb self owner kb)" if "no_empty_entry self"
    using that by (simp add: add_kb_def no_empty_entry_def append_or_create_nonempty)
  moreover have "no_empty_entry (snd (import_jwks self jwks owner))" if "no_empty_entry self"
    using that
    by (simp add: import_jwks_def no_empty_entry_def append_or_create_nonempty
        split: option.splits)
  ultimately show ?thesis
    using remove_outdated_nonempty add_symmetric_nonempty setitem_nonempty by blast
qed

theorem mutations_keep_owners_nonempty_witness:
  "wf_jar rotation_jar \<and> no_empty_entry rotation_jar
   \<and> no_empty_entry (snd (remove_outdated rotation_jar 5000))
   \<and> no_empty_entry (snd (add_url rotation_jar ''new'' ''https://new/jwks''))
   \<and> no_empty_entry (add_kb rotation_jar ''new'' (keybundle_cls_keys [active_key] True))
   \<and> no_empty_entry (snd (import_jwks rotation_jar [(''keys'', [active_key])] ''new''))
   \<and> no_empty_entry (snd (add_symmetric id rotation_jar ''new'' ''secret'' (Some [''sig''])))
   \<and> no_empty_entry (snd (setitem rotation_jar ''new''
         (Single (KB (keybundle_cls_keys [active_key] True)))))"
  using mutations_keep_owners_nonempty [of rotation_jar 5000 "''new''" "''https://new/jwks''"
      "keybundle_cls_keys [active_key] True" "[(''keys'', [active_key])]" "Some [''sig'']"
      id "''secret''" "Single (KB (keybundle_cls_keys [active_key] True))"]
  by (simp add: wf_jar_def no_empty_entry_def rotation_jar_def example_defs as_list_def)

text \<open>
  For all the mutating methods without condition the property fails: on the empty jar, \<open>add_symmetric\<close> with the empty usage list and
  \<open>__setitem__\<close> with the empty list each leave the owner with no bundle.
\<close>

theorem mutations_keep_owners_nonempty_counterexample:
  "no_empty_entry KeyJar_init
   \<and> issuer_keys (snd (add_symmetric id KeyJar_init ''a'' ''secret'' (Some []))) = [(''a'', [])]
   \<and> \<not> no_empty_entry (snd (add_symmetric id KeyJar_init ''a'' ''secret'' (Some [])))
   \<and> issuer_keys (snd (setitem KeyJar_init ''a'' (PyList []))) = [(''a'', [])]
   \<and> \<not> no_empty_entry (snd (setitem KeyJar_init ''a'' (PyList [])))"
  by (simp add: no_empty_entry_def KeyJar_init_def add_symmetric_def setitem_def as_list_def)

end
